theory Spec2Isabelle
  imports Main "HOL-Library.Word"
begin

section \<open>Status reports\<close>

text \<open>
  The header \<^verbatim>\<open>diagnostic_updater.hpp\<close> passes every report around as a
  \<^verbatim>\<open>DiagnosticStatusWrapper &\<close>. A level is an \<^verbatim>\<open>unsigned char\<close>
  (see \<^verbatim>\<open>Updater::broadcast\<close>), hence an 8-bit word; the key/value entries of a
  report are an ordered sequence of string pairs.
\<close>

type_synonym level_t = "8 word"

abbreviation OK :: level_t where "OK \<equiv> 0"
abbreviation WARN :: level_t where "WARN \<equiv> 1"
abbreviation ERROR :: level_t where "ERROR \<equiv> 2"
abbreviation STALE :: level_t where "STALE \<equiv> 3"

record DiagnosticStatusWrapper =
  level :: level_t
  name :: string
  message :: string
  key_values :: "(string \<times> string) list"

text \<open>
  Modelled from the spec: the class \<^verbatim>\<open>DiagnosticStatusWrapper\<close> lives in
  \<^verbatim>\<open>diagnostic_status_wrapper.hpp\<close>, which is not among the sources. A freshly
  constructed report is OK with empty texts and no fields (``initialize an accumulator
  summary to OK/empty'').
\<close>

definition fresh_status :: DiagnosticStatusWrapper where
  "fresh_status = \<lparr>level = OK, name = [], message = [], key_values = []\<rparr>"

text \<open>
  Modelled from the spec: \<^verbatim>\<open>DiagnosticStatusWrapper::summary(src)\<close>, missing with
  the wrapper class. It copies the summary of \<open>src\<close>, which is ``level + message
  only, not fields'', into the receiver \<open>tgt\<close>.
\<close>

definition summary :: "DiagnosticStatusWrapper \<Rightarrow> DiagnosticStatusWrapper \<Rightarrow> DiagnosticStatusWrapper" where
  "summary tgt src = tgt\<lparr>level := level src, message := message src\<rparr>"

text \<open>
  Modelled from the spec: \<^verbatim>\<open>DiagnosticStatusWrapper::mergeSummary(src)\<close>, missing
  with the wrapper class. The receiver \<open>acc\<close> takes the larger of the two levels; the
  message of a non-OK \<open>src\<close> is appended to the messages gathered so far, after the
  delimiter when a non-OK message has been gathered before (which is the case exactly
  when the level of \<open>acc\<close> is no longer OK); an OK \<open>src\<close> leaves the message alone.
\<close>

definition delimiter :: string where
  "delimiter = ''; ''"

definition mergeSummary :: "DiagnosticStatusWrapper \<Rightarrow> DiagnosticStatusWrapper \<Rightarrow> DiagnosticStatusWrapper" where
  "mergeSummary acc src =
     acc\<lparr>level := max (level acc) (level src),
         message := (if level src = OK then message acc
                     else if level acc = OK then message src
                     else message acc @ delimiter @ message src)\<rparr>"

section \<open>Diagnostic tasks\<close>

text \<open>
  A \<^verbatim>\<open>TaskFunction\<close> is a \<^verbatim>\<open>std::function<void (DiagnosticStatusWrapper &)>\<close>:
  it mutates the report it is given, so it is a function from the report before the
  call to the report after it. The functions below describe calls that return; a
  callback that throws ends the enclosing call by propagation, since nothing in the
  header catches.
\<close>

type_synonym TaskFunction = "DiagnosticStatusWrapper \<Rightarrow> DiagnosticStatusWrapper"

text \<open>
  \<^verbatim>\<open>DiagnosticTask\<close> is the abstract base class: a constant name and a virtual
  \<^verbatim>\<open>run\<close>. An object of any subclass is the pair of the two.
\<close>

record DiagnosticTask =
  getName :: string
  run :: TaskFunction

definition GenericFunctionDiagnosticTask :: "string \<Rightarrow> TaskFunction \<Rightarrow> DiagnosticTask" where
  "GenericFunctionDiagnosticTask nm fn = \<lparr>getName = nm, run = fn\<rparr>"

subsection \<open>CompositeDiagnosticTask\<close>

text \<open>
  The loop of \<^verbatim>\<open>CompositeDiagnosticTask::run\<close> over \<^verbatim>\<open>tasks_\<close>. The state of the
  loop is the report \<open>stat\<close> and the local \<open>combined_summary\<close>; \<open>original_summary\<close> does
  not change.
\<close>

fun run_children ::
  "DiagnosticTask list \<Rightarrow> DiagnosticStatusWrapper \<Rightarrow>
   DiagnosticStatusWrapper \<times> DiagnosticStatusWrapper \<Rightarrow>
   DiagnosticStatusWrapper \<times> DiagnosticStatusWrapper" where
  "run_children [] original_summary (stat, combined_summary) = (stat, combined_summary)"
| "run_children (t # ts) original_summary (stat, combined_summary) =
     (let stat1 = summary stat original_summary;
          stat2 = run t stat1;
          combined_summary' = mergeSummary combined_summary stat2
      in run_children ts original_summary (stat2, combined_summary'))"

definition CompositeDiagnosticTask_run :: "DiagnosticTask list \<Rightarrow> TaskFunction" where
  "CompositeDiagnosticTask_run tasks stat =
     (let combined_summary = fresh_status;
          original_summary = summary fresh_status stat;
          (stat', combined_summary') =
             run_children tasks original_summary (stat, combined_summary)
      in summary stat' combined_summary')"

definition CompositeDiagnosticTask :: "string \<Rightarrow> DiagnosticTask list \<Rightarrow> DiagnosticTask" where
  "CompositeDiagnosticTask nm tasks = \<lparr>getName = nm, run = CompositeDiagnosticTask_run tasks\<rparr>"

text \<open>\<^verbatim>\<open>addTask\<close> is a \<^verbatim>\<open>push_back\<close> on the children.\<close>

definition addTask :: "DiagnosticTask \<Rightarrow> DiagnosticTask list \<Rightarrow> DiagnosticTask list" where
  "addTask t tasks = tasks @ [t]"

subsection \<open>What the children of a composite task see and return\<close>

text \<open>
  The calls that the loop of \<^verbatim>\<open>CompositeDiagnosticTask::run\<close> makes, in order: for
  each child the report it is invoked on (after \<^verbatim>\<open>stat.summary(original_summary)\<close>)
  and the report it leaves behind. Lemma \<open>run_children_calls\<close> below ties this
  sequence to the loop itself.
\<close>

fun child_calls ::
  "DiagnosticTask list \<Rightarrow> DiagnosticStatusWrapper \<Rightarrow> DiagnosticStatusWrapper \<Rightarrow>
   (DiagnosticStatusWrapper \<times> DiagnosticStatusWrapper) list" where
  "child_calls [] original_summary stat = []"
| "child_calls (t # ts) original_summary stat =
     (let stat1 = summary stat original_summary;
          stat2 = run t stat1
      in (stat1, stat2) # child_calls ts original_summary stat2)"

definition composite_calls ::
  "DiagnosticTask list \<Rightarrow> DiagnosticStatusWrapper \<Rightarrow>
   (DiagnosticStatusWrapper \<times> DiagnosticStatusWrapper) list" where
  "composite_calls children stat = child_calls children (summary fresh_status stat) stat"

definition child_inputs :: "DiagnosticTask list \<Rightarrow> DiagnosticStatusWrapper \<Rightarrow> DiagnosticStatusWrapper list" where
  "child_inputs children stat = map fst (composite_calls children stat)"

definition child_outputs :: "DiagnosticTask list \<Rightarrow> DiagnosticStatusWrapper \<Rightarrow> DiagnosticStatusWrapper list" where
  "child_outputs children stat = map snd (composite_calls children stat)"

text \<open>
  A call only appends fields when the fields it was given are an initial segment of
  the fields it returns; what it appended is the rest.
\<close>

definition only_appends :: "DiagnosticStatusWrapper \<times> DiagnosticStatusWrapper \<Rightarrow> bool" where
  "only_appends c \<longleftrightarrow>
     take (length (key_values (fst c))) (key_values (snd c)) = key_values (fst c)"

definition appended_fields :: "DiagnosticStatusWrapper \<times> DiagnosticStatusWrapper \<Rightarrow> (string \<times> string) list" where
  "appended_fields c = drop (length (key_values (fst c))) (key_values (snd c))"

text \<open>Messages written one after the other with the delimiter between neighbours.\<close>

fun join_messages :: "string list \<Rightarrow> string" where
  "join_messages [] = []"
| "join_messages [m] = m"
| "join_messages (m # ms) = m @ delimiter @ join_messages ms"

section \<open>The task vector\<close>

text \<open>
  \<^verbatim>\<open>DiagnosticTaskInternal\<close> holds the members \<^verbatim>\<open>name_\<close> and \<^verbatim>\<open>fn_\<close>; its
  \<^verbatim>\<open>run\<close> writes the name into the report and then calls the function on it.
\<close>

record DiagnosticTaskInternal =
  task_name :: string
  task_fn :: TaskFunction

definition DiagnosticTaskInternal_run :: "DiagnosticTaskInternal \<Rightarrow> TaskFunction" where
  "DiagnosticTaskInternal_run e stat = task_fn e (stat\<lparr>name := task_name e\<rparr>)"

text \<open>
  \<^verbatim>\<open>DiagnosticTaskVector\<close> owns the vector \<^verbatim>\<open>tasks_\<close>, read through \<^verbatim>\<open>getTasks\<close>.
  The mutex \<^verbatim>\<open>lock_\<close> has no counterpart here: the functions below are the bodies
  of the member functions, each run from start to end on its own. Subclasses extend the
  record, and the virtual \<^verbatim>\<open>addedTaskCallback\<close> is an argument of the functions that
  call it.
\<close>

record DiagnosticTaskVector =
  getTasks :: "DiagnosticTaskInternal list"

definition DiagnosticTaskVector_addedTaskCallback ::
  "DiagnosticTaskInternal \<Rightarrow> 'a DiagnosticTaskVector_scheme \<Rightarrow> 'a DiagnosticTaskVector_scheme" where
  "DiagnosticTaskVector_addedTaskCallback task v = v"

definition addInternal ::
  "(DiagnosticTaskInternal \<Rightarrow> 'a DiagnosticTaskVector_scheme \<Rightarrow> 'a DiagnosticTaskVector_scheme) \<Rightarrow>
   DiagnosticTaskInternal \<Rightarrow> 'a DiagnosticTaskVector_scheme \<Rightarrow> 'a DiagnosticTaskVector_scheme" where
  "addInternal addedTaskCallback task v =
     addedTaskCallback task (v\<lparr>getTasks := getTasks v @ [task]\<rparr>)"

text \<open>The three overloads of \<^verbatim>\<open>add\<close>: name and function, task object, name and bound method.\<close>

definition add ::
  "(DiagnosticTaskInternal \<Rightarrow> 'a DiagnosticTaskVector_scheme \<Rightarrow> 'a DiagnosticTaskVector_scheme) \<Rightarrow>
   string \<Rightarrow> TaskFunction \<Rightarrow> 'a DiagnosticTaskVector_scheme \<Rightarrow> 'a DiagnosticTaskVector_scheme" where
  "add addedTaskCallback nm f v =
     (let int_task = \<lparr>task_name = nm, task_fn = f\<rparr> in addInternal addedTaskCallback int_task v)"

definition add_task ::
  "(DiagnosticTaskInternal \<Rightarrow> 'a DiagnosticTaskVector_scheme \<Rightarrow> 'a DiagnosticTaskVector_scheme) \<Rightarrow>
   DiagnosticTask \<Rightarrow> 'a DiagnosticTaskVector_scheme \<Rightarrow> 'a DiagnosticTaskVector_scheme" where
  "add_task addedTaskCallback task v =
     (let f = run task in add addedTaskCallback (getName task) f v)"

definition add_method ::
  "(DiagnosticTaskInternal \<Rightarrow> 'a DiagnosticTaskVector_scheme \<Rightarrow> 'a DiagnosticTaskVector_scheme) \<Rightarrow>
   string \<Rightarrow> 'c \<Rightarrow> ('c \<Rightarrow> TaskFunction) \<Rightarrow>
   'a DiagnosticTaskVector_scheme \<Rightarrow> 'a DiagnosticTaskVector_scheme" where
  "add_method addedTaskCallback nm c f v =
     (let int_task = \<lparr>task_name = nm, task_fn = f c\<rparr> in addInternal addedTaskCallback int_task v)"

text \<open>
  \<^verbatim>\<open>removeByName\<close>: the iterator walks the vector from \<^verbatim>\<open>begin()\<close>; at the first
  entry with the name it erases that entry and returns true; at \<^verbatim>\<open>end()\<close> it
  returns false. The iterator is the index \<open>i\<close>.
\<close>

function removeByName_loop ::
  "string \<Rightarrow> DiagnosticTaskInternal list \<Rightarrow> nat \<Rightarrow> bool \<times> DiagnosticTaskInternal list" where
  "removeByName_loop nm ts i =
     (if i < length ts then
        (if task_name (ts ! i) = nm then (True, take i ts @ drop (Suc i) ts)
         else removeByName_loop nm ts (Suc i))
      else (False, ts))"
  by pat_completeness auto
termination
  by (relation "measure (\<lambda>(nm, ts, i). length ts - i)") auto

definition removeByName ::
  "string \<Rightarrow> 'a DiagnosticTaskVector_scheme \<Rightarrow> bool \<times> 'a DiagnosticTaskVector_scheme" where
  "removeByName nm v =
     (let (found, ts) = removeByName_loop nm (getTasks v) 0 in (found, v\<lparr>getTasks := ts\<rparr>))"

declare removeByName_loop.simps [simp del]

section \<open>The updater\<close>

text \<open>
  \<^verbatim>\<open>Updater\<close> derives from \<^verbatim>\<open>DiagnosticTaskVector\<close>. Of its members the record
  keeps \<^verbatim>\<open>period_\<close>, \<^verbatim>\<open>hwid_\<close> and \<^verbatim>\<open>warn_nohwid_done_\<close>. A duration and a
  time are counts of nanoseconds. The timer \<^verbatim>\<open>update_timer_\<close> appears as the time
  \<open>next_due\<close> at which it fires next, and the publisher \<^verbatim>\<open>publisher_\<close> as the
  sequence \<open>published\<close> of the batches handed to it so far, oldest first; both follow
  the spec's scheduler state and its Sink.
\<close>

record Updater = DiagnosticTaskVector +
  period :: int
  next_due :: int
  hwid :: string
  warn_nohwid_done :: bool
  published :: "DiagnosticStatusWrapper list list"

text \<open>
  Modelled from the spec: \<^verbatim>\<open>Updater::publish\<close>, declared in the header and defined
  in \<^verbatim>\<open>diagnostic_updater.cpp\<close>, which is not among the sources. The Sink
  consumes one batch, an ordered sequence of reports.
\<close>

definition publish :: "DiagnosticStatusWrapper list \<Rightarrow> Updater \<Rightarrow> Updater" where
  "publish status_vec u = u\<lparr>published := published u @ [status_vec]\<rparr>"

text \<open>
  Modelled from the spec: \<^verbatim>\<open>Updater::addedTaskCallback\<close>, declared in the header
  and defined in the missing \<^verbatim>\<open>diagnostic_updater.cpp\<close>. It ``synchronously
  publishes a single-entry batch containing a placeholder StatusReport (level OK or
  STALE, message e.g. "Node starting up") for just that new entry''. Of the two levels
  the spec allows, the placeholder here is OK.
\<close>

definition placeholder_status :: "DiagnosticTaskInternal \<Rightarrow> DiagnosticStatusWrapper" where
  "placeholder_status task =
     fresh_status\<lparr>name := task_name task, level := OK, message := ''Node starting up''\<rparr>"

definition Updater_addedTaskCallback :: "DiagnosticTaskInternal \<Rightarrow> Updater \<Rightarrow> Updater" where
  "Updater_addedTaskCallback task u = publish [placeholder_status task] u"

text \<open>
  Modelled from the spec: \<^verbatim>\<open>Updater::update\<close>, declared in the header and defined
  in the missing \<^verbatim>\<open>diagnostic_updater.cpp\<close>. One dispatch pass: ``for each
  [entry], construct a fresh StatusReport, set its name from the entry, invoke the
  entry's callback, collect into a batch; if hardware_id is empty, append a single
  WARN-level synthetic report once per process lifetime (latched by warn_nohwid_done)
  rather than per tick; hand the full batch to the Sink''. The spec fixes the level of
  the synthetic report only; its texts here are a choice. The pass has no gate of its
  own and does not touch \<open>next_due\<close>: the header's \<^verbatim>\<open>force_update\<close> is this call
  and nothing else, the class comment says that it ``can always be triggered async to
  the period interval'', and the spec lets it dispatch ``regardless of next_due,
  without altering the schedule''. The rate limit that the header's comment on
  \<^verbatim>\<open>update\<close> mentions (``if the inter-update interval has been exceeded'') is
  that of the timer which calls it, the spec's \<open>tick\<close> below.
\<close>

definition task_reports :: "Updater \<Rightarrow> DiagnosticStatusWrapper list" where
  "task_reports u =
     map (\<lambda>e. DiagnosticTaskInternal_run e (fresh_status\<lparr>name := task_name e\<rparr>)) (getTasks u)"

definition nohwid_status :: DiagnosticStatusWrapper where
  "nohwid_status =
     fresh_status\<lparr>name := ''diagnostic_updater'', level := WARN, message := ''No HW_ID was set''\<rparr>"

definition nohwid_warning :: "Updater \<Rightarrow> DiagnosticStatusWrapper list" where
  "nohwid_warning u = (if hwid u = [] \<and> \<not> warn_nohwid_done u then [nohwid_status] else [])"

definition update :: "Updater \<Rightarrow> Updater" where
  "update u =
     (let status_vec = task_reports u @ nohwid_warning u;
          u1 = (if hwid u = [] \<and> \<not> warn_nohwid_done u then u\<lparr>warn_nohwid_done := True\<rparr> else u)
      in publish status_vec u1)"

text \<open>\<^verbatim>\<open>force_update\<close> is in the header: it calls \<^verbatim>\<open>update\<close> and nothing else.\<close>

definition force_update :: "Updater \<Rightarrow> Updater" where
  "force_update u = update u"

text \<open>
  Modelled from the spec: the entry point \<open>tick\<close> that the external timer calls, with
  the clock reading \<open>now\<close>. ``If now >= next_due, transition Idle -> Dispatching ->
  Idle, else no-op''; the pass is followed by ``recompute next_due = now + period''.
\<close>

definition tick :: "int \<Rightarrow> Updater \<Rightarrow> Updater" where
  "tick now u = (if next_due u \<le> now then (update u)\<lparr>next_due := now + period u\<rparr> else u)"

text \<open>
  Modelled from the spec: \<^verbatim>\<open>Updater::reset_timer\<close>, declared in the header and
  defined in the missing \<^verbatim>\<open>diagnostic_updater.cpp\<close>: ``recomputes next_due = now +
  period''.
\<close>

definition reset_timer :: "int \<Rightarrow> Updater \<Rightarrow> Updater" where
  "reset_timer now u = u\<lparr>next_due := now + period u\<rparr>"

text \<open>
  \<^verbatim>\<open>setPeriod(rclcpp::Duration)\<close> and \<^verbatim>\<open>setHardwareID\<close> are in the header. The
  clock reading at the time of the call is the argument \<open>now\<close>.
\<close>

definition setPeriod :: "int \<Rightarrow> int \<Rightarrow> Updater \<Rightarrow> Updater" where
  "setPeriod now p u = reset_timer now (u\<lparr>period := p\<rparr>)"

definition setHardwareID :: "string \<Rightarrow> Updater \<Rightarrow> Updater" where
  "setHardwareID h u = u\<lparr>hwid := h\<rparr>"

subsection \<open>Runs of the updater\<close>

text \<open>
  The calls a client and the timer can make on an updater, and a run as a sequence of
  them. Tasks are added through \<^verbatim>\<open>add\<close> with the updater's own
  \<^verbatim>\<open>addedTaskCallback\<close>.
\<close>

datatype call =
    Tick int
  | ForceUpdate
  | Add string TaskFunction
  | RemoveByName string
  | SetPeriod int int
  | SetHardwareID string

fun step :: "call \<Rightarrow> Updater \<Rightarrow> Updater" where
  "step (Tick now) u = tick now u"
| "step ForceUpdate u = force_update u"
| "step (Add nm f) u = add Updater_addedTaskCallback nm f u"
| "step (RemoveByName nm) u = snd (removeByName nm u)"
| "step (SetPeriod now p) u = setPeriod now p u"
| "step (SetHardwareID h) u = setHardwareID h u"

fun run_calls :: "call list \<Rightarrow> Updater \<Rightarrow> Updater" where
  "run_calls [] u = u"
| "run_calls (c # cs) u = run_calls cs (step c u)"

text \<open>Whether a call makes a dispatch pass in state \<open>u\<close>.\<close>

fun dispatches :: "call \<Rightarrow> Updater \<Rightarrow> bool" where
  "dispatches (Tick now) u = (next_due u \<le> now)"
| "dispatches ForceUpdate u = True"
| "dispatches _ u = False"

text \<open>
  The synthetic reports that the dispatch passes of a run append to their batches, in
  order.
\<close>

fun nohwid_emissions :: "call list \<Rightarrow> Updater \<Rightarrow> DiagnosticStatusWrapper list" where
  "nohwid_emissions [] u = []"
| "nohwid_emissions (c # cs) u =
     (if dispatches c u then nohwid_warning u else []) @ nohwid_emissions cs (step c u)"

section \<open>Example inputs\<close>

text \<open>
  Three children as in the spec's merge example: an OK child, a WARN child with the
  message ``low battery'' and an ERROR child with the message ``overheat'', each
  appending one field; and a report that already carries a summary and a field.
\<close>

definition example_children :: "DiagnosticTask list" where
  "example_children =
     [GenericFunctionDiagnosticTask ''calibration''
        (\<lambda>s. s\<lparr>level := OK, message := ''calibrated'', key_values := key_values s @ [(''offset'', ''0'')]\<rparr>),
      GenericFunctionDiagnosticTask ''battery''
        (\<lambda>s. s\<lparr>level := WARN, message := ''low battery'', key_values := key_values s @ [(''charge'', ''12'')]\<rparr>),
      GenericFunctionDiagnosticTask ''temperature''
        (\<lambda>s. s\<lparr>level := ERROR, message := ''overheat'', key_values := key_values s @ [(''celsius'', ''91'')]\<rparr>)]"

definition example_stat :: DiagnosticStatusWrapper where
  "example_stat = \<lparr>level = STALE, name = ''imu'', message = ''stale'', key_values = [(''serial'', ''7'')]\<rparr>"

text \<open>
  Two registry entries named ``battery'': one whose callback writes a name of its own
  into the report, one whose callback writes a summary and leaves the name alone.
\<close>

definition renaming_entry :: DiagnosticTaskInternal where
  "renaming_entry = \<lparr>task_name = ''battery'', task_fn = (\<lambda>s. s\<lparr>name := ''internal name''\<rparr>)\<rparr>"

definition level_entry :: DiagnosticTaskInternal where
  "level_entry = \<lparr>task_name = ''battery'', task_fn = (\<lambda>s. s\<lparr>level := WARN, message := ''low battery''\<rparr>)\<rparr>"

text \<open>
  A task vector built by three calls of \<^verbatim>\<open>add\<close>, two of them with the same
  name, and an updater without hardware id that has not warned yet.
\<close>

definition example_vector :: DiagnosticTaskVector where
  "example_vector =
     add DiagnosticTaskVector_addedTaskCallback ''temperature'' (\<lambda>s. s\<lparr>level := ERROR\<rparr>)
       (add DiagnosticTaskVector_addedTaskCallback ''temperature'' (\<lambda>s. s\<lparr>level := WARN\<rparr>)
         (add DiagnosticTaskVector_addedTaskCallback ''battery'' (\<lambda>s. s)
           \<lparr>getTasks = []\<rparr>))"

definition example_updater :: Updater where
  "example_updater =
     \<lparr>getTasks = [level_entry], period = 1000, next_due = 1000, hwid = [],
      warn_nohwid_done = False, published = []\<rparr>"

text \<open>
  An updater with a hardware id and both entries registered, whose next due time
  (1000) lies after the clock reading 0.
\<close>

definition example_dispatch_updater :: Updater where
  "example_dispatch_updater =
     \<lparr>getTasks = [level_entry, renaming_entry], period = 1000, next_due = 1000, hwid = ''imu0'',
      warn_nohwid_done = False, published = []\<rparr>"

section \<open>Properties of the composite task\<close>

subsection \<open>The loop and the sequence of calls\<close>

lemma run_children_calls:
  "run_children ts orig (stat, comb) =
     (last (stat # map snd (child_calls ts orig stat)),
      foldl mergeSummary comb (map snd (child_calls ts orig stat)))"
  by (induction ts arbitrary: stat comb) (simp_all add: Let_def)

lemma composite_run_calls:
  "CompositeDiagnosticTask_run ts stat =
     summary (last (stat # child_outputs ts stat))
             (foldl mergeSummary fresh_status (child_outputs ts stat))"
  by (simp add: CompositeDiagnosticTask_run_def run_children_calls child_outputs_def composite_calls_def Let_def)

lemma level_foldl_mergeSummary:
  "level (foldl mergeSummary acc outs) = Max (set (level acc # map level outs))"
proof (induction outs arbitrary: acc)
  case Nil
  then show ?case by simp
next
  case (Cons a outs)
  have "Max (set (max (level acc) (level a) # map level outs)) = Max (set (level acc # level a # map level outs))"
    by (cases "map level outs = []") (simp_all add: max.assoc)
  then show ?case using Cons by (simp add: mergeSummary_def)
qed

lemma join_messages_Cons:
  "join_messages (m # ms) = m @ concat (map (\<lambda>x. delimiter @ x) ms)"
  by (induction ms arbitrary: m) simp_all

lemma message_foldl_mergeSummary_nonOK:
  "level acc \<noteq> OK \<Longrightarrow>
   message (foldl mergeSummary acc outs) =
     message acc @ concat (map (\<lambda>x. delimiter @ x) (map message (filter (\<lambda>s. level s \<noteq> OK) outs)))"
proof (induction outs arbitrary: acc)
  case Nil
  then show ?case by simp
next
  case (Cons a outs)
  have "level (mergeSummary acc a) \<noteq> OK" using Cons.prems
    by (auto simp add: mergeSummary_def max_def)
  from Cons.IH[OF this] show ?case using Cons.prems
    by (simp add: mergeSummary_def)
qed

lemma message_foldl_mergeSummary_OK:
  "level acc = OK \<Longrightarrow> message acc = [] \<Longrightarrow>
   message (foldl mergeSummary acc outs) =
     join_messages (map message (filter (\<lambda>s. level s \<noteq> OK) outs))"
proof (induction outs arbitrary: acc)
  case Nil
  then show ?case by simp
next
  case (Cons a outs)
  show ?case
  proof (cases "level a = OK")
    case True
    then have "mergeSummary acc a = acc" using Cons.prems by (simp add: mergeSummary_def)
    then show ?thesis using Cons True by simp
  next
    case False
    then have l: "level (mergeSummary acc a) \<noteq> OK" and m: "message (mergeSummary acc a) = message a"
      using Cons.prems by (auto simp add: mergeSummary_def max_def)
    show ?thesis using False message_foldl_mergeSummary_nonOK[OF l, of outs] m
      by (simp add: join_messages_Cons)
  qed
qed

lemma key_values_child_calls:
  "\<forall>c \<in> set (child_calls ts orig stat). only_appends c \<Longrightarrow>
   key_values (last (stat # map snd (child_calls ts orig stat))) =
     key_values stat @ concat (map appended_fields (child_calls ts orig stat))"
proof (induction ts arbitrary: stat)
  case Nil
  then show ?case by simp
next
  case (Cons t ts)
  let ?s1 = "summary stat orig"
  let ?s2 = "run t ?s1"
  have calls: "child_calls (t # ts) orig stat = (?s1, ?s2) # child_calls ts orig ?s2"
    by (simp add: Let_def)
  have oa: "only_appends (?s1, ?s2)" and rest: "\<forall>c \<in> set (child_calls ts orig ?s2). only_appends c"
    using Cons.prems by (simp_all add: Let_def)
  have kv1: "key_values ?s1 = key_values stat" by (simp add: summary_def)
  have "key_values ?s2 = key_values stat @ appended_fields (?s1, ?s2)"
    using oa kv1 by (simp add: only_appends_def appended_fields_def) (metis append_take_drop_id)
  with Cons.IH[OF rest] show ?case
    by (simp add: Let_def)
qed

lemma child_calls_length: "length (child_calls ts orig s) = length ts"
  by (induction ts arbitrary: s) (simp_all add: Let_def)

lemma child_calls_input_summary:
  "map (\<lambda>c. (level (fst c), message (fst c))) (child_calls ts orig s) =
     replicate (length ts) (level orig, message orig)"
  by (induction ts arbitrary: s) (simp_all add: Let_def summary_def)

lemma child_calls_input_fields:
  "map (key_values \<circ> fst) (child_calls ts orig s) =
     butlast (key_values s # map (key_values \<circ> snd) (child_calls ts orig s))"
  by (induction ts arbitrary: s) (simp_all add: Let_def summary_def)

lemma child_calls_outputs:
  "map snd (child_calls ts orig s) = map2 run ts (map fst (child_calls ts orig s))"
  by (induction ts arbitrary: s) (simp_all add: Let_def)

subsection \<open>Merged summary and accumulated fields\<close>

text \<open>
  C1. After \<^verbatim>\<open>run(stat)\<close> of a composite task, the level of \<open>stat\<close> is the
  maximum of the levels the children left in the report (OK when there is no child),
  the message is the messages of the children that left a non-OK level, in child
  order, joined by the delimiter, and, when every child only appended fields to the
  report it was given, the fields are those on entry followed by the fields each child
  appended, in the order appended.
\<close>

theorem composite_run_merges:
  "level (CompositeDiagnosticTask_run ts stat) = Max (set (OK # map level (child_outputs ts stat)))
   \<and> message (CompositeDiagnosticTask_run ts stat) =
       join_messages (map message (filter (\<lambda>s. level s \<noteq> OK) (child_outputs ts stat)))
   \<and> ((\<forall>c \<in> set (composite_calls ts stat). only_appends c) \<longrightarrow>
       key_values (CompositeDiagnosticTask_run ts stat) =
         key_values stat @ concat (map appended_fields (composite_calls ts stat)))"
proof (intro conjI impI)
  show "level (CompositeDiagnosticTask_run ts stat) = Max (set (OK # map level (child_outputs ts stat)))"
    using level_foldl_mergeSummary[of fresh_status "child_outputs ts stat"]
    by (simp add: composite_run_calls summary_def fresh_status_def)
  show "message (CompositeDiagnosticTask_run ts stat) =
       join_messages (map message (filter (\<lambda>s. level s \<noteq> OK) (child_outputs ts stat)))"
    using message_foldl_mergeSummary_OK[of fresh_status "child_outputs ts stat"]
    by (simp add: composite_run_calls summary_def fresh_status_def)
next
  assume "\<forall>c \<in> set (composite_calls ts stat). only_appends c"
  then show "key_values (CompositeDiagnosticTask_run ts stat) =
         key_values stat @ concat (map appended_fields (composite_calls ts stat))"
    using key_values_child_calls[of ts "summary fresh_status stat" stat]
    by (simp add: composite_run_calls summary_def child_outputs_def composite_calls_def)
qed

theorem composite_run_merges_witness:
  "list_all only_appends (composite_calls example_children example_stat)
   \<and> level (CompositeDiagnosticTask_run example_children example_stat) = ERROR
   \<and> message (CompositeDiagnosticTask_run example_children example_stat) = ''low battery; overheat''
   \<and> key_values (CompositeDiagnosticTask_run example_children example_stat) =
        [(''serial'', ''7''), (''offset'', ''0''), (''charge'', ''12''), (''celsius'', ''91'')]"
  using composite_run_merges [of example_children example_stat]
  by (simp add: composite_calls_def child_outputs_def example_children_def example_stat_def
      GenericFunctionDiagnosticTask_def summary_def fresh_status_def Let_def
      only_appends_def appended_fields_def delimiter_def)

text \<open>
  C4. Every child of a composite task is invoked on a report whose level and message
  are those the composite was passed, whatever the children before it wrote, while
  its fields are the fields the previous child left (those on entry for the first
  child): the first child's input fields are those of \<open>stat\<close>, and each later
  input carries the fields of the output before it. The outputs are the children's
  \<^verbatim>\<open>run\<close> on these inputs, and they determine the result of the composite.
\<close>

theorem composite_children_inputs:
  "length (child_inputs ts stat) = length ts
   \<and> map level (child_inputs ts stat) = replicate (length ts) (level stat)
   \<and> map message (child_inputs ts stat) = replicate (length ts) (message stat)
   \<and> map key_values (child_inputs ts stat) =
       butlast (key_values stat # map key_values (child_outputs ts stat))
   \<and> child_outputs ts stat = map2 run ts (child_inputs ts stat)
   \<and> CompositeDiagnosticTask_run ts stat =
       summary (last (stat # child_outputs ts stat))
               (foldl mergeSummary fresh_status (child_outputs ts stat))"
proof -
  let ?orig = "summary fresh_status stat"
  have lm: "level ?orig = level stat" "message ?orig = message stat"
    by (simp_all add: summary_def)
  have "map (\<lambda>c. (level (fst c), message (fst c))) (child_calls ts ?orig stat) =
     replicate (length ts) (level stat, message stat)"
    using child_calls_input_summary[of ts ?orig stat] lm by simp
  then have "map fst (map (\<lambda>c. (level (fst c), message (fst c))) (child_calls ts ?orig stat)) =
      map fst (replicate (length ts) (level stat, message stat))"
    and "map snd (map (\<lambda>c. (level (fst c), message (fst c))) (child_calls ts ?orig stat)) =
      map snd (replicate (length ts) (level stat, message stat))"
    by simp_all
  then have a: "map level (child_inputs ts stat) = replicate (length ts) (level stat)"
    and b: "map message (child_inputs ts stat) = replicate (length ts) (message stat)"
    by (simp_all add: child_inputs_def composite_calls_def comp_def)
  have c: "map key_values (child_inputs ts stat) =
       butlast (key_values stat # map key_values (child_outputs ts stat))"
    using child_calls_input_fields[of ts ?orig stat]
    by (simp add: child_inputs_def child_outputs_def composite_calls_def)
  have d: "child_outputs ts stat = map2 run ts (child_inputs ts stat)"
    using child_calls_outputs[of ts ?orig stat]
    by (simp add: child_inputs_def child_outputs_def composite_calls_def)
  have e: "length (child_inputs ts stat) = length ts"
    by (simp add: child_inputs_def composite_calls_def child_calls_length)
  show ?thesis using a b c d e composite_run_calls by blast
qed

text \<open>
  C10. A composite task without children replaces the level and the message of the
  report by those of a fresh accumulator (OK, empty message), whatever they were on
  entry, and leaves the fields (and the name) as they were.
\<close>

theorem composite_no_children:
  "CompositeDiagnosticTask_run [] stat = stat\<lparr>level := OK, message := []\<rparr>"
  by (simp add: CompositeDiagnosticTask_run_def summary_def fresh_status_def)

section \<open>Properties of the task vector\<close>

text \<open>
  C2. Claimed: the name of the report is overwritten with the registered name after
  the callback of the entry has run, so that a name the task writes never shows. In
  \<^verbatim>\<open>DiagnosticTaskInternal::run\<close> the assignment comes before the call: for the
  entry \<open>renaming_entry\<close>, registered as ``battery'', the report carries the name
  its callback wrote.
\<close>

theorem entry_run_name_counterexample:
  "name (DiagnosticTaskInternal_run renaming_entry fresh_status) = ''internal name''
   \<and> name (DiagnosticTaskInternal_run renaming_entry fresh_status) \<noteq> task_name renaming_entry"
  by (simp add: DiagnosticTaskInternal_run_def renaming_entry_def)

text \<open>
  C2, as amended. \<^verbatim>\<open>DiagnosticTaskInternal::run\<close> writes the registered name
  into the report before the callback runs, so the name the report carried on entry
  is discarded; the name after the run is the one the callback leaves when started on
  the registered name, which is the registered name for every callback that does not
  write the name.
\<close>

theorem entry_run_name:
  "DiagnosticTaskInternal_run e (stat\<lparr>name := n\<rparr>) = DiagnosticTaskInternal_run e stat
   \<and> name (DiagnosticTaskInternal_run e stat) = name (task_fn e (stat\<lparr>name := task_name e\<rparr>))
   \<and> ((\<forall>s. name (task_fn e s) = name s) \<longrightarrow>
        name (DiagnosticTaskInternal_run e stat) = task_name e)"
  by (simp add: DiagnosticTaskInternal_run_def)

theorem entry_run_name_witness:
  "(\<forall>s. name (task_fn level_entry s) = name s)
   \<and> name (DiagnosticTaskInternal_run level_entry fresh_status) = ''battery''"
  using entry_run_name [where e = level_entry and stat = fresh_status]
  by (simp add: level_entry_def)

subsection \<open>Removal by name\<close>

lemma removeByName_loop_none:
  "\<forall>x \<in> set (drop i ts). task_name x \<noteq> nm \<Longrightarrow> removeByName_loop nm ts i = (False, ts)"
proof (induction nm ts i rule: removeByName_loop.induct)
  case (1 nm ts i)
  show ?case
  proof (cases "i < length ts")
    case True
    then have d: "drop i ts = ts ! i # drop (Suc i) ts"
      by (simp add: Cons_nth_drop_Suc)
    with "1.prems" have ne: "task_name (ts ! i) \<noteq> nm" and rest: "\<forall>x \<in> set (drop (Suc i) ts). task_name x \<noteq> nm"
      by simp_all
    from "1.IH"[OF True ne rest] True ne show ?thesis
      by (subst removeByName_loop.simps) simp
  next
    case False
    then show ?thesis by (subst removeByName_loop.simps) simp
  qed
qed

lemma removeByName_loop_found:
  "i \<le> length pre \<Longrightarrow> \<forall>x \<in> set (drop i pre). task_name x \<noteq> nm \<Longrightarrow> task_name e = nm \<Longrightarrow>
   removeByName_loop nm (pre @ e # post) i = (True, pre @ post)"
proof (induction "length pre - i" arbitrary: i)
  case 0
  then have i: "i = length pre" by simp
  show ?case using 0(4) by (subst removeByName_loop.simps) (simp add: i)
next
  case (Suc k)
  then have lt: "i < length pre" by simp
  then have d: "drop i pre = pre ! i # drop (Suc i) pre"
    by (simp add: Cons_nth_drop_Suc)
  with Suc.prems have ne: "task_name (pre ! i) \<noteq> nm" and rest: "\<forall>x \<in> set (drop (Suc i) pre). task_name x \<noteq> nm"
    by simp_all
  have "removeByName_loop nm (pre @ e # post) (Suc i) = (True, pre @ post)"
    using Suc.hyps(1)[of "Suc i"] Suc.hyps(2) lt rest Suc.prems(3) by simp
  then show ?case using lt ne
    by (subst removeByName_loop.simps) (simp add: nth_append)
qed

text \<open>
  C3. \<^verbatim>\<open>removeByName\<close> on a vector that holds an entry of the name removes the
  first such entry in registration order, returns true and keeps all other entries in
  their order (duplicates of the name behind it included); on a vector without such
  an entry it returns false and changes nothing. Every vector is the result of a
  sequence of \<^verbatim>\<open>add\<close> calls, so the vector is arbitrary.
\<close>

theorem removeByName_first_match:
  "(getTasks v = pre @ e # post \<and> task_name e = nm \<and> (\<forall>x \<in> set pre. task_name x \<noteq> nm)
      \<longrightarrow> removeByName nm v = (True, v\<lparr>getTasks := pre @ post\<rparr>))
   \<and> ((\<forall>x \<in> set (getTasks v). task_name x \<noteq> nm) \<longrightarrow> removeByName nm v = (False, v))"
proof (intro conjI impI)
  assume a: "getTasks v = pre @ e # post \<and> task_name e = nm \<and> (\<forall>x \<in> set pre. task_name x \<noteq> nm)"
  then have "removeByName_loop nm (getTasks v) 0 = (True, pre @ post)"
    using removeByName_loop_found[of 0 pre nm e post] by simp
  then show "removeByName nm v = (True, v\<lparr>getTasks := pre @ post\<rparr>)"
    by (simp add: removeByName_def)
next
  assume "\<forall>x \<in> set (getTasks v). task_name x \<noteq> nm"
  then have "removeByName_loop nm (getTasks v) 0 = (False, getTasks v)"
    using removeByName_loop_none[of 0 "getTasks v" nm] by simp
  then show "removeByName nm v = (False, v)"
    by (simp add: removeByName_def)
qed

theorem removeByName_first_match_witness:
  "(getTasks example_vector =
      [\<lparr>task_name = ''battery'', task_fn = (\<lambda>s. s)\<rparr>]
      @ \<lparr>task_name = ''temperature'', task_fn = (\<lambda>s. s\<lparr>level := WARN\<rparr>)\<rparr>
      # [\<lparr>task_name = ''temperature'', task_fn = (\<lambda>s. s\<lparr>level := ERROR\<rparr>)\<rparr>]
    \<and> list_all (\<lambda>x. task_name x \<noteq> ''temperature'') [\<lparr>task_name = ''battery'', task_fn = (\<lambda>s. s)\<rparr>])
   \<and> removeByName ''temperature'' example_vector =
       (True, \<lparr>getTasks = [\<lparr>task_name = ''battery'', task_fn = (\<lambda>s. s)\<rparr>,
                           \<lparr>task_name = ''temperature'', task_fn = (\<lambda>s. s\<lparr>level := ERROR\<rparr>)\<rparr>]\<rparr>)
   \<and> list_all (\<lambda>x. task_name x \<noteq> ''gps'') (getTasks example_vector)
   \<and> removeByName ''gps'' example_vector = (False, example_vector)"
  using removeByName_first_match [where v = example_vector and nm = "''temperature''"
      and pre = "[\<lparr>task_name = ''battery'', task_fn = (\<lambda>s. s)\<rparr>]"
      and e = "\<lparr>task_name = ''temperature'', task_fn = (\<lambda>s. s\<lparr>level := WARN\<rparr>)\<rparr>"
      and post = "[\<lparr>task_name = ''temperature'', task_fn = (\<lambda>s. s\<lparr>level := ERROR\<rparr>)\<rparr>]"]
    removeByName_first_match [where v = example_vector and nm = "''gps''"]
  by (simp add: example_vector_def add_def addInternal_def DiagnosticTaskVector_addedTaskCallback_def)

subsection \<open>Adding a task\<close>

lemma addInternal_Updater:
  "addInternal Updater_addedTaskCallback e u =
     u\<lparr>getTasks := getTasks u @ [e], published := published u @ [[placeholder_status e]]\<rparr>"
  by (simp add: addInternal_def Updater_addedTaskCallback_def publish_def)

lemma adds_Updater:
  "foldl (\<lambda>u e. addInternal Updater_addedTaskCallback e u) u es =
     u\<lparr>getTasks := getTasks u @ es, published := published u @ map (\<lambda>e. [placeholder_status e]) es\<rparr>"
proof (induction es arbitrary: u)
  case Nil
  then show ?case by simp
next
  case (Cons e es)
  show ?case
    by (simp add: Cons.IH) (simp add: addInternal_Updater)
qed

text \<open>
  C5. \<^verbatim>\<open>addInternal\<close> appends the entry to the vector and then calls the
  task-added hook, once, with that entry, on the vector that already holds it; each
  overload of \<^verbatim>\<open>add\<close> is one call of \<^verbatim>\<open>addInternal\<close>. With the updater's
  hook the call appends the entry and hands one batch to the Sink that consists of the
  placeholder report carrying the entry's name; period, \<open>next_due\<close>, hardware id and
  latch stay as they were. A sequence of such calls appends the entries in order and
  publishes one placeholder batch for each.
\<close>

theorem add_appends_then_hook:
  "addInternal h e v = h e (v\<lparr>getTasks := getTasks v @ [e]\<rparr>)
   \<and> add h nm f v = addInternal h \<lparr>task_name = nm, task_fn = f\<rparr> v
   \<and> add_task h t v = addInternal h \<lparr>task_name = getName t, task_fn = run t\<rparr> v
   \<and> add_method h nm c m v = addInternal h \<lparr>task_name = nm, task_fn = m c\<rparr> v
   \<and> addInternal Updater_addedTaskCallback e u =
       u\<lparr>getTasks := getTasks u @ [e], published := published u @ [[placeholder_status e]]\<rparr>
   \<and> name (placeholder_status e) = task_name e
   \<and> foldl (\<lambda>u e. addInternal Updater_addedTaskCallback e u) u es =
       u\<lparr>getTasks := getTasks u @ es,
         published := published u @ map (\<lambda>e. [placeholder_status e]) es\<rparr>"
proof (intro conjI)
  show "addInternal h e v = h e (v\<lparr>getTasks := getTasks v @ [e]\<rparr>)"
    by (simp add: addInternal_def)
  show "add h nm f v = addInternal h \<lparr>task_name = nm, task_fn = f\<rparr> v"
    by (simp add: add_def)
  show "add_task h t v = addInternal h \<lparr>task_name = getName t, task_fn = run t\<rparr> v"
    by (simp add: add_task_def add_def)
  show "add_method h nm c m v = addInternal h \<lparr>task_name = nm, task_fn = m c\<rparr> v"
    by (simp add: add_method_def)
  show "addInternal Updater_addedTaskCallback e u =
       u\<lparr>getTasks := getTasks u @ [e], published := published u @ [[placeholder_status e]]\<rparr>"
    by (rule addInternal_Updater)
  show "name (placeholder_status e) = task_name e"
    by (simp add: placeholder_status_def)
  show "foldl (\<lambda>u e. addInternal Updater_addedTaskCallback e u) u es =
       u\<lparr>getTasks := getTasks u @ es,
         published := published u @ map (\<lambda>e. [placeholder_status e]) es\<rparr>"
    by (rule adds_Updater)
qed

section \<open>Properties of the updater\<close>

text \<open>
  C7. \<^verbatim>\<open>setPeriod(P2)\<close> at time \<open>T\<close> stores the period \<open>P2\<close> and sets
  \<open>next_due\<close> to \<open>T + P2\<close>, changing nothing else; the result is the same whatever
  \<open>next_due\<close> was before.
\<close>

theorem setPeriod_resets_schedule:
  "setPeriod T P2 u = u\<lparr>period := P2, next_due := T + P2\<rparr>
   \<and> setPeriod T P2 (u\<lparr>next_due := d\<rparr>) = setPeriod T P2 u"
  by (simp add: setPeriod_def reset_timer_def)

text \<open>
  C8. \<^verbatim>\<open>force_update\<close> makes a full dispatch pass at once: it hands one batch to
  the Sink, holding for each registered entry, in order, the report that the entry's
  callback returns when started on a fresh report with the registered name (followed
  by the synthetic warning when that is due), and apart from the batch and the latch
  it changes nothing in the updater. It does so in the same way whatever \<open>next_due\<close>
  is, also at a clock reading before \<open>next_due\<close>, at which \<open>tick\<close> does nothing;
  \<open>next_due\<close>, the period and the registered entries stay as they were.
\<close>

theorem force_update_dispatches:
  "published (force_update u) = published u @ [task_reports u @ nohwid_warning u]
   \<and> task_reports u = map (\<lambda>e. task_fn e (fresh_status\<lparr>name := task_name e\<rparr>)) (getTasks u)
   \<and> length (task_reports u) = length (getTasks u)
   \<and> force_update u =
       u\<lparr>warn_nohwid_done := (warn_nohwid_done u \<or> hwid u = []),
         published := published u @
           [map (\<lambda>e. task_fn e (fresh_status\<lparr>name := task_name e\<rparr>)) (getTasks u)
            @ nohwid_warning u]\<rparr>
   \<and> force_update (u\<lparr>next_due := d\<rparr>) = (force_update u)\<lparr>next_due := d\<rparr>
   \<and> next_due (force_update u) = next_due u
   \<and> period (force_update u) = period u
   \<and> getTasks (force_update u) = getTasks u
   \<and> (now < next_due u \<longrightarrow> tick now u = u \<and> published (force_update u) \<noteq> published u)"
proof -
  have reports: "task_reports u = map (\<lambda>e. task_fn e (fresh_status\<lparr>name := task_name e\<rparr>)) (getTasks u)"
    by (simp add: task_reports_def DiagnosticTaskInternal_run_def)
  have pub: "published (force_update u) = published u @ [task_reports u @ nohwid_warning u]"
    by (simp add: force_update_def update_def publish_def Let_def)
  have whole: "force_update u =
       u\<lparr>warn_nohwid_done := (warn_nohwid_done u \<or> hwid u = []),
         published := published u @ [task_reports u @ nohwid_warning u]\<rparr>"
  proof (cases "hwid u = [] \<and> \<not> warn_nohwid_done u")
    case True
    then show ?thesis by (simp add: force_update_def update_def publish_def Let_def)
  next
    case False
    then have "(warn_nohwid_done u \<or> hwid u = []) = warn_nohwid_done u" by auto
    then show ?thesis using False
      by (simp add: force_update_def update_def publish_def Let_def)
  qed
  have frame: "force_update (u\<lparr>next_due := d\<rparr>) = (force_update u)\<lparr>next_due := d\<rparr>"
    by (simp add: force_update_def update_def publish_def task_reports_def nohwid_warning_def Let_def)
  have rest: "next_due (force_update u) = next_due u" "period (force_update u) = period u"
    "getTasks (force_update u) = getTasks u" "length (task_reports u) = length (getTasks u)"
    by (simp_all add: whole task_reports_def)
  have gate: "now < next_due u \<longrightarrow> tick now u = u \<and> published (force_update u) \<noteq> published u"
    by (simp add: tick_def pub)
  show ?thesis using reports pub whole frame rest gate by simp
qed

theorem force_update_dispatches_witness:
  "0 < next_due example_dispatch_updater
   \<and> tick 0 example_dispatch_updater = example_dispatch_updater
   \<and> force_update example_dispatch_updater =
       \<lparr>getTasks = [level_entry, renaming_entry], period = 1000, next_due = 1000, hwid = ''imu0'',
        warn_nohwid_done = False,
        published =
          [[\<lparr>level = WARN, name = ''battery'', message = ''low battery'', key_values = []\<rparr>,
            \<lparr>level = OK, name = ''internal name'', message = [], key_values = []\<rparr>]]\<rparr>
   \<and> published (force_update example_dispatch_updater) \<noteq> published example_dispatch_updater"
proof -
  have due: "0 < next_due example_dispatch_updater"
    by (simp add: example_dispatch_updater_def)
  have gate: "0 < next_due example_dispatch_updater \<longrightarrow>
      tick 0 example_dispatch_updater = example_dispatch_updater
      \<and> published (force_update example_dispatch_updater) \<noteq> published example_dispatch_updater"
    using force_update_dispatches [where u = example_dispatch_updater and now = 0] by blast
  have whole: "force_update example_dispatch_updater =
       example_dispatch_updater
        \<lparr>warn_nohwid_done :=
           (warn_nohwid_done example_dispatch_updater \<or> hwid example_dispatch_updater = []),
         published := published example_dispatch_updater @
           [map (\<lambda>e. task_fn e (fresh_status\<lparr>name := task_name e\<rparr>))
              (getTasks example_dispatch_updater)
            @ nohwid_warning example_dispatch_updater]\<rparr>"
    using force_update_dispatches [where u = example_dispatch_updater] by blast
  have val: "example_dispatch_updater
        \<lparr>warn_nohwid_done :=
           (warn_nohwid_done example_dispatch_updater \<or> hwid example_dispatch_updater = []),
         published := published example_dispatch_updater @
           [map (\<lambda>e. task_fn e (fresh_status\<lparr>name := task_name e\<rparr>))
              (getTasks example_dispatch_updater)
            @ nohwid_warning example_dispatch_updater]\<rparr> =
       \<lparr>getTasks = [level_entry, renaming_entry], period = 1000, next_due = 1000, hwid = ''imu0'',
        warn_nohwid_done = False,
        published =
          [[\<lparr>level = WARN, name = ''battery'', message = ''low battery'', key_values = []\<rparr>,
            \<lparr>level = OK, name = ''internal name'', message = [], key_values = []\<rparr>]]\<rparr>"
    by (simp add: example_dispatch_updater_def level_entry_def renaming_entry_def
        fresh_status_def nohwid_warning_def)
  show ?thesis using due gate whole val by simp
qed

subsection \<open>The latch of the missing-hardware-id warning\<close>

lemma latch_step: "warn_nohwid_done u \<Longrightarrow> warn_nohwid_done (step c u)"
  by (cases c)
    (simp_all add: tick_def update_def publish_def force_update_def add_def addInternal_def
      Updater_addedTaskCallback_def removeByName_def setPeriod_def reset_timer_def
      setHardwareID_def Let_def split: prod.splits)

lemma latch_run: "warn_nohwid_done u \<Longrightarrow> warn_nohwid_done (run_calls cs u)"
  by (induction cs arbitrary: u) (simp_all add: latch_step)

lemma latched_no_emissions: "warn_nohwid_done u \<Longrightarrow> nohwid_emissions cs u = []"
  by (induction cs arbitrary: u) (simp_all add: latch_step nohwid_warning_def)

lemma emission_sets_latch:
  "dispatches c u \<Longrightarrow> nohwid_warning u \<noteq> [] \<Longrightarrow> warn_nohwid_done (step c u)"
  by (cases c)
    (simp_all add: tick_def update_def publish_def force_update_def nohwid_warning_def Let_def
      split: if_splits)

lemma at_most_one_emission: "length (nohwid_emissions cs u) \<le> 1"
proof (induction cs arbitrary: u)
  case Nil
  then show ?case by simp
next
  case (Cons c cs)
  show ?case
  proof (cases "dispatches c u \<and> nohwid_warning u \<noteq> []")
    case True
    then have "nohwid_emissions cs (step c u) = []"
      using emission_sets_latch latched_no_emissions by blast
    then show ?thesis by (simp add: nohwid_warning_def)
  next
    case False
    then have "nohwid_emissions (c # cs) u = nohwid_emissions cs (step c u)"
      by auto
    then show ?thesis using Cons.IH by simp
  qed
qed

lemma dispatch_publishes:
  "dispatches c u \<Longrightarrow> published (step c u) = published u @ [task_reports u @ nohwid_warning u]"
  by (cases c)
    (simp_all add: tick_def update_def publish_def force_update_def nohwid_warning_def Let_def)

text \<open>
  C6. In every run of the updater, from every state, the dispatch passes append the
  synthetic ``no hardware id'' report at most once altogether; from a state in which
  \<open>warn_nohwid_done\<close> is set no pass of the run appends it and the latch is still
  set at the end, however many passes there are. A call that dispatches publishes the
  task reports followed by exactly that synthetic part.
\<close>

theorem nohwid_warning_latched:
  "length (nohwid_emissions cs u) \<le> 1
   \<and> (warn_nohwid_done u \<longrightarrow>
        nohwid_emissions cs u = [] \<and> warn_nohwid_done (run_calls cs u))
   \<and> (dispatches c u \<longrightarrow>
        published (step c u) = published u @ [task_reports u @ nohwid_warning u])"
  using at_most_one_emission latched_no_emissions latch_run dispatch_publishes
  by blast

theorem nohwid_warning_latched_witness:
  "warn_nohwid_done (force_update example_updater)
   \<and> dispatches ForceUpdate (force_update example_updater)
   \<and> nohwid_emissions [Tick 2000, ForceUpdate] (force_update example_updater) = []
   \<and> nohwid_emissions [ForceUpdate, Tick 2000, ForceUpdate] example_updater = [nohwid_status]
   \<and> map length (published (run_calls [ForceUpdate, Tick 2000, ForceUpdate] example_updater)) = [2, 1, 1]"
  using nohwid_warning_latched [of "[Tick 2000, ForceUpdate]" "force_update example_updater" ForceUpdate]
  by (simp add: example_updater_def level_entry_def force_update_def update_def publish_def
      tick_def nohwid_warning_def task_reports_def Let_def)

end
